theory Spec2Isabelle
  imports Main
begin

section \<open>The task checklist of \<open>src/App.tsx\<close>\<close>

text \<open>
  The application keeps, per calendar date, an ordered list of tasks in one in-memory
  record. Every handler of \<open>ChecklistApp\<close> is modelled as a function from the state
  before the event to the state after it; the values the handlers read from the platform
  (the clock, the pressed key) are arguments.
\<close>

subsection \<open>Data model\<close>

text \<open>
  \<^verbatim>\<open>interface Task { id: number; text: string; completed: boolean }\<close>.
  The fields \<open>id\<close> and \<open>text\<close> carry a prime, as both names are taken in HOL.
  Ids are the integers \<open>Date.now()\<close> returns.
\<close>

record Task =
  id' :: int
  text' :: string
  completed :: bool

text \<open>\<^verbatim>\<open>type TasksByDate = Record<string, Task[]>\<close>: a key is absent or bound to a list.\<close>

type_synonym TasksByDate = "string \<rightharpoonup> Task list"

datatype Status = none | incomplete | complete

datatype View = calendar | day

text \<open>
  A \<open>Date\<close> object holds a time value in milliseconds since the epoch, or \<open>NaN\<close>
  (an invalid date).
\<close>

datatype jsdate = Invalid | Valid int

text \<open>The state hooks of \<open>ChecklistApp\<close> (lines 52 to 64).\<close>

record App =
  view :: View
  selectedDate :: jsdate
  year :: int
  tasksByDate :: TasksByDate
  editingId :: "int option"
  editingValue :: string
  newTask :: string

subsection \<open>Strings\<close>

text \<open>
  \<open>String.prototype.trim\<close> removes white space and line terminators from both ends.
  Strings are lists of 8-bit characters here, so the white space of ECMAScript is the
  part of it below 256: TAB, LF, VT, FF, CR, SP and NBSP.
\<close>

definition isWhiteSpace :: "char \<Rightarrow> bool" where
  "isWhiteSpace c = (of_char c \<in> {9, 10, 11, 12, 13, 32, 160 :: nat})"

definition trim :: "string \<Rightarrow> string" where
  "trim s = rev (dropWhile isWhiteSpace (rev (dropWhile isWhiteSpace s)))"

subsection \<open>The task store\<close>

text \<open>
  \<open>fmt\<close> (line 75) is \<open>d.toISOString().slice(0, 10)\<close>, a function of the platform:
  the handlers take it as their first argument, and nothing below depends on which
  function it is.

  \<^verbatim>\<open>currentTasks = tasksByDate[fmt(selectedDate)] || []\<close> (lines 78 to 81): an array is
  truthy, so only the absent key yields the empty list.
\<close>

definition currentTasks :: "(jsdate \<Rightarrow> string) \<Rightarrow> App \<Rightarrow> Task list" where
  "currentTasks fmt s =
     (case tasksByDate s (fmt (selectedDate s)) of None \<Rightarrow> [] | Some list \<Rightarrow> list)"

text \<open>
  \<^verbatim>\<open>setTasksByDate((prev) => ({ ...prev, [key]: updater(prev[key] || []) }))\<close>
  (lines 83 to 86).
\<close>

definition setCurrentTasks ::
  "(jsdate \<Rightarrow> string) \<Rightarrow> (Task list \<Rightarrow> Task list) \<Rightarrow> App \<Rightarrow> App" where
  "setCurrentTasks fmt updater s =
     (let key = fmt (selectedDate s);
          prev = tasksByDate s
      in s\<lparr>tasksByDate :=
             prev(key \<mapsto> updater (case prev key of None \<Rightarrow> [] | Some list \<Rightarrow> list))\<rparr>)"

text \<open>The updaters of lines 89, 93, 100 and 107, each a function of the previous list.\<close>

definition toggleUpdater :: "int \<Rightarrow> Task list \<Rightarrow> Task list" where
  "toggleUpdater i prev =
     map (\<lambda>t. if id' t = i then t\<lparr>completed := \<not> completed t\<rparr> else t) prev"

definition deleteUpdater :: "int \<Rightarrow> Task list \<Rightarrow> Task list" where
  "deleteUpdater i prev = filter (\<lambda>t. id' t \<noteq> i) prev"

text \<open>\<^verbatim>\<open>text: value || t.text\<close>: the empty string is the only falsy string.\<close>

definition renameUpdater :: "int \<Rightarrow> string \<Rightarrow> Task list \<Rightarrow> Task list" where
  "renameUpdater i v prev =
     map (\<lambda>t. if id' t = i then t\<lparr>text' := (if v = [] then text' t else v)\<rparr> else t) prev"

definition addUpdater :: "int \<Rightarrow> string \<Rightarrow> Task list \<Rightarrow> Task list" where
  "addUpdater now v prev = prev @ [\<lparr>id' = now, text' = v, completed = False\<rparr>]"

definition toggleTask :: "(jsdate \<Rightarrow> string) \<Rightarrow> int \<Rightarrow> App \<Rightarrow> App" where
  "toggleTask fmt i s = setCurrentTasks fmt (toggleUpdater i) s"

definition deleteTask :: "(jsdate \<Rightarrow> string) \<Rightarrow> int \<Rightarrow> App \<Rightarrow> App" where
  "deleteTask fmt i s = setCurrentTasks fmt (deleteUpdater i) s"

definition startEditing :: "Task \<Rightarrow> App \<Rightarrow> App" where
  "startEditing task s = s\<lparr>editingId := Some (id' task), editingValue := text' task\<rparr>"

text \<open>
  \<open>saveEditing\<close> (lines 97 to 102) returns at once when no task is being edited;
  otherwise it renames through the store helper, then resets both editing fields.
\<close>

definition saveEditing :: "(jsdate \<Rightarrow> string) \<Rightarrow> App \<Rightarrow> App" where
  "saveEditing fmt s =
     (case editingId s of
        None \<Rightarrow> s
      | Some i \<Rightarrow>
          (setCurrentTasks fmt (renameUpdater i (trim (editingValue s))) s)
            \<lparr>editingId := None, editingValue := []\<rparr>)"

text \<open>
  \<open>handleNewTask\<close> (lines 104 to 109); \<open>now\<close> is what \<open>Date.now()\<close> returns when the
  handler runs.
\<close>

definition handleNewTask :: "(jsdate \<Rightarrow> string) \<Rightarrow> int \<Rightarrow> App \<Rightarrow> App" where
  "handleNewTask fmt now s =
     (let v = trim (newTask s)
      in if v = [] then s
         else (setCurrentTasks fmt (addUpdater now v) s)\<lparr>newTask := []\<rparr>)"

definition handleKeyDownNew :: "(jsdate \<Rightarrow> string) \<Rightarrow> int \<Rightarrow> string \<Rightarrow> App \<Rightarrow> App" where
  "handleKeyDownNew fmt now k s = (if k = ''Enter'' then handleNewTask fmt now s else s)"

text \<open>
  The key handler of the edit field (line 265): Enter saves, Escape calls
  \<open>onEditChange("")\<close>, which is \<open>setEditingValue\<close>, and nothing else.
\<close>

definition editKeyDown :: "(jsdate \<Rightarrow> string) \<Rightarrow> string \<Rightarrow> App \<Rightarrow> App" where
  "editKeyDown fmt k s =
     (if k = ''Enter'' then saveEditing fmt s
      else if k = ''Escape'' then s\<lparr>editingValue := []\<rparr>
      else s)"

subsection \<open>The status classifier\<close>

text \<open>
  \<open>dayStatus\<close> (lines 114 to 118), on the key \<open>fmt(d)\<close> of its date:
  \<open>!list\<close> holds for the absent key only.
\<close>

definition dayStatus :: "TasksByDate \<Rightarrow> string \<Rightarrow> Status" where
  "dayStatus store key =
     (case store key of
        None \<Rightarrow> none
      | Some list \<Rightarrow>
          if length list = 0 then none
          else if list_all (\<lambda>t. completed t) list then complete else incomplete)"

subsection \<open>Dates\<close>

text \<open>
  \<open>Month\<close> (lines 184 to 192) builds its grid with the \<open>Date\<close> of the platform:
  \<open>new Date(year, month, date)\<close>, \<open>getDay()\<close> and \<open>getDate()\<close>, all three in local
  time. They are modelled after the abstract operations of ECMA-262 (section "Date
  Objects"), under their names there, on integer time values. A \<open>Date\<close> holds a UTC
  time value; the local time zone of the platform is an argument.
\<close>

definition msPerDay :: int where
  "msPerDay = 86400000"

definition Day :: "int \<Rightarrow> int" where
  "Day t = t div msPerDay"

definition DaysInYear :: "int \<Rightarrow> int" where
  "DaysInYear y =
     (if y mod 4 \<noteq> 0 then 365
      else if y mod 100 \<noteq> 0 then 366
      else if y mod 400 \<noteq> 0 then 365
      else 366)"

definition DayFromYear :: "int \<Rightarrow> int" where
  "DayFromYear y =
     365 * (y - 1970) + (y - 1969) div 4 - (y - 1901) div 100 + (y - 1601) div 400"

definition TimeFromYear :: "int \<Rightarrow> int" where
  "TimeFromYear y = msPerDay * DayFromYear y"

text \<open>
  One year further, the day number grows by the length of the year. This makes
  \<open>DayFromYear\<close> strictly increasing, which the search for the year of a time value
  below needs to terminate.
\<close>

lemma div_succ_int:
  fixes a n :: int
  assumes "0 < n"
  shows "(a + 1) div n = a div n + (if (a + 1) mod n = 0 then 1 else 0)"
proof (cases "a mod n + 1 = n")
  case True
  have "a + 1 = n * (a div n) + (a mod n + 1)" by simp
  also have "\<dots> = n * (a div n + 1) + 0"
    unfolding True by (simp add: algebra_simps)
  finally have "a + 1 = n * (a div n + 1) + 0" .
  then have "(a + 1) div n = a div n + 1 \<and> (a + 1) mod n = 0"
    using assms int_div_pos_eq [of "a + 1" n "a div n + 1" 0]
      int_mod_pos_eq [of "a + 1" n "a div n + 1" 0]
    by simp
  then show ?thesis by simp
next
  case False
  have r: "0 \<le> a mod n" "a mod n < n" using assms by simp_all
  with False have lt: "a mod n + 1 < n" by simp
  have "a + 1 = n * (a div n) + (a mod n + 1)" by simp
  then have "(a + 1) div n = a div n \<and> (a + 1) mod n = a mod n + 1"
    using lt r int_div_pos_eq [of "a + 1" n "a div n" "a mod n + 1"]
      int_mod_pos_eq [of "a + 1" n "a div n" "a mod n + 1"]
    by simp
  then show ?thesis using r by simp
qed

lemma leap_step:
  fixes y :: int
  assumes "0 < n" and "n dvd k - 1"
  shows "(y + 1 - k) div n = (y - k) div n + (if n dvd y then 1 else 0)"
proof -
  have "n dvd y - (k - 1) \<longleftrightarrow> n dvd y"
    using assms(2) by (rule dvd_diff_left_iff)
  moreover have "y - k + 1 = y - (k - 1)" by simp
  ultimately have "(y - k + 1) mod n = 0 \<longleftrightarrow> n dvd y"
    by (simp only: mod_eq_0_iff_dvd)
  moreover have e: "y + 1 - k = y - k + 1" by simp
  ultimately show ?thesis
    unfolding e using div_succ_int [OF assms(1), of "y - k"] by simp
qed

lemma DaysInYear_dvd:
  "DaysInYear y = 365 + (if 4 dvd y then 1 else 0) - (if 100 dvd y then 1 else 0)
     + (if 400 dvd y then 1 else 0)"
proof -
  have "(100::int) dvd 400" and "(4::int) dvd 100" by simp_all
  then have "400 dvd y \<Longrightarrow> 100 dvd y" and "100 dvd y \<Longrightarrow> 4 dvd y"
    by (blast intro: dvd_trans)+
  then show ?thesis
    by (auto simp: DaysInYear_def mod_eq_0_iff_dvd)
qed

lemma DayFromYear_next: "DayFromYear (y + 1) = DayFromYear y + DaysInYear y"
proof -
  have a: "(y + 1 - 1969) div 4 = (y - 1969) div 4 + (if 4 dvd y then 1 else 0)"
    by (rule leap_step) simp_all
  have b: "(y + 1 - 1901) div 100 = (y - 1901) div 100 + (if 100 dvd y then 1 else 0)"
    by (rule leap_step) simp_all
  have c: "(y + 1 - 1601) div 400 = (y - 1601) div 400 + (if 400 dvd y then 1 else 0)"
    by (rule leap_step) simp_all
  have "DayFromYear (y + 1) =
      365 * (y + 1 - 1970) + (y + 1 - 1969) div 4 - (y + 1 - 1901) div 100 + (y + 1 - 1601) div 400"
    by (simp only: DayFromYear_def)
  also have "\<dots> = DayFromYear y + DaysInYear y"
    unfolding a b c DaysInYear_dvd DayFromYear_def by (simp only: algebra_simps)
  finally show ?thesis .
qed

lemma DaysInYear_bounds: "365 \<le> DaysInYear y" "DaysInYear y \<le> 366"
  by (simp_all add: DaysInYear_def)

lemma DayFromYear_less_next: "DayFromYear y < DayFromYear (y + 1)"
  using DaysInYear_bounds(1) [of y] by (simp add: DayFromYear_next)

lemma DayFromYear_strict: "y < z \<Longrightarrow> DayFromYear y < DayFromYear z"
proof -
  have step: "DayFromYear y < DayFromYear (y + 1 + int k)" for k
  proof (induction k)
    case 0
    show ?case using DayFromYear_less_next [of y] by simp
  next
    case (Suc k)
    have "DayFromYear (y + 1 + int k) < DayFromYear (y + 1 + int k + 1)"
      by (rule DayFromYear_less_next)
    with Suc show ?case by (simp add: add.assoc)
  qed
  assume "y < z"
  then have "z = y + 1 + int (nat (z - y - 1))" by simp
  with step [of "nat (z - y - 1)"] show ?thesis by simp
qed

lemma DayFromYear_mono: "y \<le> z \<Longrightarrow> DayFromYear y \<le> DayFromYear z"
  using DayFromYear_strict [of y z] by (cases "y = z") simp_all

lemma TimeFromYear_strict: "y < z \<Longrightarrow> TimeFromYear y < TimeFromYear z"
  by (simp add: TimeFromYear_def msPerDay_def DayFromYear_strict)

text \<open>
  \<open>YearFromTime(t)\<close> is the largest \<open>y\<close> with \<open>TimeFromYear(y) \<le> t\<close>. It is computed
  from an estimate: down until the year starts at or before \<open>t\<close>, then up while the
  next year does too.
\<close>

function yearDown :: "int \<Rightarrow> int \<Rightarrow> int" where
  "yearDown t y = (if TimeFromYear y \<le> t then y else yearDown t (y - 1))"
  by pat_completeness auto
termination
proof (relation "measure (\<lambda>(t, y). nat (TimeFromYear y - t))")
  fix t y :: int
  assume "\<not> TimeFromYear y \<le> t"
  moreover have "TimeFromYear (y - 1) < TimeFromYear y"
    by (rule TimeFromYear_strict) simp
  ultimately show "((t, y - 1), (t, y)) \<in> measure (\<lambda>(t, y). nat (TimeFromYear y - t))"
    by simp
qed simp

function yearUp :: "int \<Rightarrow> int \<Rightarrow> int" where
  "yearUp t y = (if TimeFromYear (y + 1) \<le> t then yearUp t (y + 1) else y)"
  by pat_completeness auto
termination
proof (relation "measure (\<lambda>(t, y). nat (t - TimeFromYear (y + 1) + 1))")
  fix t y :: int
  assume "TimeFromYear (y + 1) \<le> t"
  moreover have "TimeFromYear (y + 1) < TimeFromYear (y + 1 + 1)"
    by (rule TimeFromYear_strict) simp
  ultimately show "((t, y + 1), (t, y)) \<in> measure (\<lambda>(t, y). nat (t - TimeFromYear (y + 1) + 1))"
    by simp
qed simp

declare yearDown.simps [simp del] yearUp.simps [simp del]

definition YearFromTime :: "int \<Rightarrow> int" where
  "YearFromTime t = yearUp t (yearDown t (1970 + (Day t * 400) div 146097))"

definition InLeapYear :: "int \<Rightarrow> int" where
  "InLeapYear t = (if DaysInYear (YearFromTime t) = 366 then 1 else 0)"

definition DayWithinYear :: "int \<Rightarrow> int" where
  "DayWithinYear t = Day t - DayFromYear (YearFromTime t)"

definition MonthFromTime :: "int \<Rightarrow> int" where
  "MonthFromTime t =
     (let d = DayWithinYear t; leap = InLeapYear t
      in if d < 31 then 0
         else if d < 59 + leap then 1
         else if d < 90 + leap then 2
         else if d < 120 + leap then 3
         else if d < 151 + leap then 4
         else if d < 181 + leap then 5
         else if d < 212 + leap then 6
         else if d < 243 + leap then 7
         else if d < 273 + leap then 8
         else if d < 304 + leap then 9
         else if d < 334 + leap then 10
         else 11)"

definition DateFromTime :: "int \<Rightarrow> int" where
  "DateFromTime t =
     (let d = DayWithinYear t; leap = InLeapYear t; m = MonthFromTime t
      in if m = 0 then d + 1
         else if m = 1 then d - 30
         else if m = 2 then d - 58 - leap
         else if m = 3 then d - 89 - leap
         else if m = 4 then d - 119 - leap
         else if m = 5 then d - 150 - leap
         else if m = 6 then d - 180 - leap
         else if m = 7 then d - 211 - leap
         else if m = 8 then d - 242 - leap
         else if m = 9 then d - 272 - leap
         else if m = 10 then d - 303 - leap
         else d - 333 - leap)"

definition WeekDay :: "int \<Rightarrow> int" where
  "WeekDay t = (Day t + 4) mod 7"

text \<open>
  \<open>MakeDay(year, month, date)\<close> finds the day on which month \<open>mn\<close> of year \<open>ym\<close>
  begins, that is the start of the year plus the lengths of the months before
  (\<open>monthStart\<close>), and adds \<open>date - 1\<close>.
\<close>

definition monthStart :: "int \<Rightarrow> int \<Rightarrow> int" where
  "monthStart mn leap =
     (if mn = 0 then 0
      else if mn = 1 then 31
      else if mn = 2 then 59 + leap
      else if mn = 3 then 90 + leap
      else if mn = 4 then 120 + leap
      else if mn = 5 then 151 + leap
      else if mn = 6 then 181 + leap
      else if mn = 7 then 212 + leap
      else if mn = 8 then 243 + leap
      else if mn = 9 then 273 + leap
      else if mn = 10 then 304 + leap
      else 334 + leap)"

definition MakeDay :: "int \<Rightarrow> int \<Rightarrow> int \<Rightarrow> int" where
  "MakeDay y m dt =
     (let ym = y + m div 12; mn = m mod 12
      in DayFromYear ym + monthStart mn (if DaysInYear ym = 366 then 1 else 0) + dt - 1)"

definition MakeDate :: "int \<Rightarrow> int \<Rightarrow> int" where
  "MakeDate d time = d * msPerDay + time"

definition TimeClip :: "int \<Rightarrow> jsdate" where
  "TimeClip time = (if \<bar>time\<bar> > 8640000000000000 then Invalid else Valid time)"

text \<open>
  \<open>LocalTZA(t, isUTC)\<close> is the offset of local time from UTC in milliseconds, which the
  platform takes from its time zone data: at the UTC time value \<open>t\<close> when \<open>isUTC\<close>
  holds, and otherwise for the local time value \<open>t\<close> (for a local time that a
  transition skips, the offset before the transition).
\<close>

type_synonym zone = "int \<Rightarrow> bool \<Rightarrow> int"

definition LocalTime :: "zone \<Rightarrow> int \<Rightarrow> int" where
  "LocalTime tza t = t + tza t True"

definition UTC :: "zone \<Rightarrow> int \<Rightarrow> int" where
  "UTC tza t = t - tza t False"

text \<open>
  The constructor \<open>new Date(year, month, date)\<close>: a year from 0 to 99 stands for
  1900 plus that year; the fields are local time, and the date holds the UTC time value
  of it; a time value out of range gives an invalid date.
\<close>

definition newDate :: "zone \<Rightarrow> int \<Rightarrow> int \<Rightarrow> int \<Rightarrow> jsdate" where
  "newDate tza y m dt =
     (let yr = (if 0 \<le> y \<and> y \<le> 99 then 1900 + y else y)
      in TimeClip (UTC tza (MakeDate (MakeDay yr m dt) 0)))"

text \<open>
  \<open>getDay()\<close> and \<open>getDate()\<close> read the local time of the date; they return \<open>NaN\<close>,
  here \<open>None\<close>, on an invalid date.
\<close>

definition getDay :: "zone \<Rightarrow> jsdate \<Rightarrow> int option" where
  "getDay tza d =
     (case d of Invalid \<Rightarrow> None | Valid t \<Rightarrow> Some (WeekDay (LocalTime tza t)))"

definition getDate :: "zone \<Rightarrow> jsdate \<Rightarrow> int option" where
  "getDate tza d =
     (case d of Invalid \<Rightarrow> None | Valid t \<Rightarrow> Some (DateFromTime (LocalTime tza t)))"

subsection \<open>The month grid\<close>

text \<open>
  \<^verbatim>\<open>const cells: (Date | null)[] = []\<close>, filled by three loops (lines 190 to 192). A
  comparison with \<open>NaN\<close> is false, so a loop bounded by \<open>NaN\<close> pushes nothing.
\<close>

type_synonym cell = "jsdate option"

function leadLoop :: "int \<Rightarrow> int option \<Rightarrow> cell list \<Rightarrow> cell list" where
  "leadLoop i None cells = cells"
| "leadLoop i (Some startDay) cells =
     (if i < startDay then leadLoop (i + 1) (Some startDay) (cells @ [None]) else cells)"
  by pat_completeness auto
termination
  by (relation "measure (\<lambda>(i, s, cells). case s of None \<Rightarrow> 0 | Some n \<Rightarrow> nat (n - i))") auto

function dayLoop ::
  "zone \<Rightarrow> int \<Rightarrow> int \<Rightarrow> int \<Rightarrow> int option \<Rightarrow> cell list \<Rightarrow> cell list" where
  "dayLoop tza y m d None cells = cells"
| "dayLoop tza y m d (Some daysInMonth) cells =
     (if d \<le> daysInMonth
      then dayLoop tza y m (d + 1) (Some daysInMonth) (cells @ [Some (newDate tza y m d)])
      else cells)"
  by pat_completeness auto
termination
  by (relation
      "measure (\<lambda>(tza, y, m, d, s, cells). case s of None \<Rightarrow> 0 | Some n \<Rightarrow> nat (n + 1 - d))")
    auto

function padLoop :: "cell list \<Rightarrow> cell list" where
  "padLoop cells = (if length cells mod 7 \<noteq> 0 then padLoop (cells @ [None]) else cells)"
  by pat_completeness auto
termination
proof (relation "measure (\<lambda>cells. (7 - length cells mod 7) mod 7)")
  fix cells :: "cell list"
  assume "length cells mod 7 \<noteq> 0"
  moreover have "length cells mod 7 < 7" by simp
  ultimately show "(cells @ [None], cells) \<in> measure (\<lambda>cells. (7 - length cells mod 7) mod 7)"
    by (auto simp: mod_Suc)
qed simp

declare leadLoop.simps [simp del] dayLoop.simps [simp del] padLoop.simps [simp del]

text \<open>
  Lines 185 to 192. \<open>getDay()\<close> is never negative, so \<open>%\<close> is \<open>mod\<close> in
  \<open>(first.getDay() + 6) % 7\<close>.
\<close>

definition Month_cells :: "zone \<Rightarrow> int \<Rightarrow> int \<Rightarrow> cell list" where
  "Month_cells tza y m =
     (let first = newDate tza y m 1;
          startDay = map_option (\<lambda>g. (g + 6) mod 7) (getDay tza first);
          daysInMonth = getDate tza (newDate tza y (m + 1) 0)
      in padLoop (dayLoop tza y m 1 daysInMonth (leadLoop 0 startDay [])))"

text \<open>
  The calendar the grid is compared with: the length of a month, the local time value at
  which day \<open>d\<close> of month \<open>m\<close> of year \<open>y\<close> begins, and the Monday-first index
  (Monday 0 to Sunday 6) of a weekday numbered from Sunday 0 to Saturday 6.
\<close>

definition monthLength :: "int \<Rightarrow> int \<Rightarrow> int" where
  "monthLength y m =
     (if m = 1 then (if DaysInYear y = 366 then 29 else 28)
      else if m = 3 \<or> m = 5 \<or> m = 8 \<or> m = 10 then 30
      else 31)"

definition dayOf :: "int \<Rightarrow> int \<Rightarrow> int \<Rightarrow> int" where
  "dayOf y m d = MakeDate (MakeDay y m d) 0"

definition mondayFirst :: "int \<Rightarrow> int" where
  "mondayFirst w = (if w = 0 then 6 else w - 1)"

text \<open>
  Three time zones for the concrete instances: UTC; Asia/Tokyo, nine hours ahead; and
  Pacific/Apia around its change of 30 December 2011, ten hours behind UTC until
  2011-12-30T10:00Z and fourteen hours ahead from then on, so that the local day
  30 December 2011 does not exist there.
\<close>

definition zoneUTC :: zone where
  "zoneUTC t isUTC = 0"

definition zoneTokyo :: zone where
  "zoneTokyo t isUTC = 32400000"

definition zoneApia :: zone where
  "zoneApia t isUTC =
     (if isUTC then (if t < 1325239200000 then - 36000000 else 50400000)
      else (if t < 1325289600000 then - 36000000 else 50400000))"

subsection \<open>Events\<close>

text \<open>
  The state on load (lines 52 to 64): the day view of \<open>new Date()\<close>, an empty store,
  nothing being edited. \<open>today\<close> and \<open>y\<close> are that date and its year.
\<close>

definition init :: "jsdate \<Rightarrow> int \<Rightarrow> App" where
  "init today y =
     \<lparr>view = day, selectedDate = today, year = y, tasksByDate = Map.empty,
      editingId = None, editingValue = [], newTask = []\<rparr>"

text \<open>
  What the user can do, one constructor per callback of the two views. An event that adds
  a task carries the value \<open>Date.now()\<close> returns while it is handled.
\<close>

datatype Event =
    Toggle int
  | Delete int
  | StartEdit Task
  | EditChange string
  | EditKeyDown string
  | EditBlur
  | NewChange string
  | NewKeyDown string int
  | NewBlur int
  | Back
  | Select jsdate
  | PrevYear
  | NextYear
  | Today int

text \<open>
  A callback can fire only while its control is on screen: the task rows and the input
  for a new task in the day view, the edit field in the row of the task being edited
  (line 264), the static text of a task in every other row, the year buttons and the day
  cells in the calendar view.
\<close>

definition rowShown :: "(jsdate \<Rightarrow> string) \<Rightarrow> int \<Rightarrow> App \<Rightarrow> bool" where
  "rowShown fmt i s = (view s = day \<and> i \<in> set (map id' (currentTasks fmt s)))"

definition editShown :: "(jsdate \<Rightarrow> string) \<Rightarrow> App \<Rightarrow> bool" where
  "editShown fmt s = (case editingId s of None \<Rightarrow> False | Some i \<Rightarrow> rowShown fmt i s)"

fun step :: "(jsdate \<Rightarrow> string) \<Rightarrow> App \<Rightarrow> Event \<Rightarrow> App" where
  "step fmt s (Toggle i) = (if rowShown fmt i s then toggleTask fmt i s else s)"
| "step fmt s (Delete i) = (if rowShown fmt i s then deleteTask fmt i s else s)"
| "step fmt s (StartEdit task) =
     (if view s = day \<and> task \<in> set (currentTasks fmt s) \<and> editingId s \<noteq> Some (id' task)
      then startEditing task s else s)"
| "step fmt s (EditChange v) = (if editShown fmt s then s\<lparr>editingValue := v\<rparr> else s)"
| "step fmt s (EditKeyDown k) = (if editShown fmt s then editKeyDown fmt k s else s)"
| "step fmt s EditBlur = (if editShown fmt s then saveEditing fmt s else s)"
| "step fmt s (NewChange v) = (if view s = day then s\<lparr>newTask := v\<rparr> else s)"
| "step fmt s (NewKeyDown k now) = (if view s = day then handleKeyDownNew fmt now k s else s)"
| "step fmt s (NewBlur now) = (if view s = day then handleNewTask fmt now s else s)"
| "step fmt s Back = (if view s = day then s\<lparr>view := calendar\<rparr> else s)"
| "step fmt s (Select d) =
     (if view s = calendar then s\<lparr>selectedDate := d, view := day\<rparr> else s)"
| "step fmt s PrevYear = (if view s = calendar then s\<lparr>year := year s - 1\<rparr> else s)"
| "step fmt s NextYear = (if view s = calendar then s\<lparr>year := year s + 1\<rparr> else s)"
| "step fmt s (Today y) = (if view s = calendar then s\<lparr>year := y\<rparr> else s)"

definition run :: "(jsdate \<Rightarrow> string) \<Rightarrow> App \<Rightarrow> Event list \<Rightarrow> App" where
  "run fmt s es = foldl (step fmt) s es"

inductive reachable :: "(jsdate \<Rightarrow> string) \<Rightarrow> App \<Rightarrow> bool" for fmt where
  reach_init: "reachable fmt (init today y)"
| reach_step: "reachable fmt s \<Longrightarrow> reachable fmt (step fmt s e)"

subsection \<open>Uniqueness of ids\<close>

text \<open>
  The ids in a store are unique when no list repeats an id and no two dates share one.
  An adding event is fresh when its clock value is not yet an id of the store.
\<close>

definition storeIds :: "TasksByDate \<Rightarrow> int set" where
  "storeIds store = {i. \<exists>k list. store k = Some list \<and> i \<in> set (map id' list)}"

definition uniqueIds :: "TasksByDate \<Rightarrow> bool" where
  "uniqueIds store \<longleftrightarrow>
     (\<forall>k list. store k = Some list \<longrightarrow> distinct (map id' list)) \<and>
     (\<forall>k1 k2 l1 l2. k1 \<noteq> k2 \<longrightarrow> store k1 = Some l1 \<longrightarrow> store k2 = Some l2 \<longrightarrow>
        set (map id' l1) \<inter> set (map id' l2) = {})"

fun clockFresh :: "App \<Rightarrow> Event \<Rightarrow> bool" where
  "clockFresh s (NewKeyDown k now) = (now \<notin> storeIds (tasksByDate s))"
| "clockFresh s (NewBlur now) = (now \<notin> storeIds (tasksByDate s))"
| "clockFresh s e = True"

inductive reachableFresh :: "(jsdate \<Rightarrow> string) \<Rightarrow> App \<Rightarrow> bool" for fmt where
  fresh_init: "reachableFresh fmt (init today y)"
| fresh_step: "reachableFresh fmt s \<Longrightarrow> clockFresh s e \<Longrightarrow> reachableFresh fmt (step fmt s e)"

subsection \<open>Sample states\<close>

text \<open>
  A key function and a state with two tasks, the second being edited, for the concrete
  instances below.
\<close>

definition fmt0 :: "jsdate \<Rightarrow> string" where
  "fmt0 d =
     (case d of
        Invalid \<Rightarrow> ''invalid''
      | Valid t \<Rightarrow> if t = 0 then ''1970-01-01'' else ''2024-03-15'')"

definition editing :: "string \<Rightarrow> App" where
  "editing v =
     \<lparr>view = day, selectedDate = Valid 0, year = 2024,
      tasksByDate = [''1970-01-01'' \<mapsto> [\<lparr>id' = 5, text' = ''a'', completed = False\<rparr>,
                                      \<lparr>id' = 6, text' = ''b'', completed = True\<rparr>]],
      editingId = Some 6, editingValue = v, newTask = []\<rparr>"

section \<open>Properties of the classifier\<close>

text \<open>
  C1. The classifier returns \<open>none\<close> exactly when the date has no list or an empty one;
  on a non-empty list it returns \<open>complete\<close> exactly when every task is completed, and
  \<open>incomplete\<close> otherwise. Its result depends on nothing but the list bound to the key.
\<close>

theorem dayStatus_classifies:
  "(dayStatus store key = none \<longleftrightarrow> store key = None \<or> store key = Some []) \<and>
   (store key = Some list \<and> list \<noteq> [] \<longrightarrow>
      (dayStatus store key = complete \<longleftrightarrow> (\<forall>t \<in> set list. completed t)) \<and>
      (dayStatus store key = incomplete \<longleftrightarrow> \<not> (\<forall>t \<in> set list. completed t))) \<and>
   (store key = store2 key2 \<longrightarrow> dayStatus store key = dayStatus store2 key2)"
proof -
  have absent: "dayStatus store key = none \<longleftrightarrow> store key = None \<or> store key = Some []"
    by (cases "store key") (simp_all add: dayStatus_def)
  have full: "dayStatus store key = complete \<longleftrightarrow> (\<forall>t \<in> set list. completed t)"
    and part: "dayStatus store key = incomplete \<longleftrightarrow> \<not> (\<forall>t \<in> set list. completed t)"
    if "store key = Some list" "list \<noteq> []"
    using that by (simp_all add: dayStatus_def list_all_iff)
  have pure: "dayStatus store key = dayStatus store2 key2" if "store key = store2 key2"
    using that by (simp add: dayStatus_def)
  from absent full part pure show ?thesis by blast
qed

theorem dayStatus_classifies_witness:
  "dayStatus Map.empty ''2024-03-15'' = none \<and>
   dayStatus [''2024-03-15'' \<mapsto> []] ''2024-03-15'' = none \<and>
   dayStatus [''2024-03-15'' \<mapsto> [\<lparr>id' = 1, text' = ''x'', completed = True\<rparr>]]
     ''2024-03-15'' = complete \<and>
   dayStatus [''2024-03-15'' \<mapsto> [\<lparr>id' = 1, text' = ''x'', completed = True\<rparr>,
                               \<lparr>id' = 2, text' = ''y'', completed = False\<rparr>]]
     ''2024-03-15'' = incomplete"
proof -
  let ?k = "''2024-03-15''"
  let ?a = "\<lparr>id' = 1, text' = ''x'', completed = True\<rparr>"
  let ?b = "\<lparr>id' = 2, text' = ''y'', completed = False\<rparr>"
  have "dayStatus Map.empty ?k = none"
    using dayStatus_classifies [of Map.empty ?k "[]" Map.empty ?k] by simp
  moreover have "dayStatus [?k \<mapsto> []] ?k = none"
    using dayStatus_classifies [of "[?k \<mapsto> []]" ?k "[]" Map.empty ?k] by simp
  moreover have "dayStatus [?k \<mapsto> [?a]] ?k = complete"
    using dayStatus_classifies [of "[?k \<mapsto> [?a]]" ?k "[?a]" Map.empty ?k] by simp
  moreover have "dayStatus [?k \<mapsto> [?a, ?b]] ?k = incomplete"
    using dayStatus_classifies [of "[?k \<mapsto> [?a, ?b]]" ?k "[?a, ?b]" Map.empty ?k] by simp
  ultimately show ?thesis by simp
qed

section \<open>The store helper\<close>

lemma currentTasks_setCurrentTasks:
  "currentTasks fmt (setCurrentTasks fmt updater s) = updater (currentTasks fmt s)"
  by (simp add: currentTasks_def setCurrentTasks_def Let_def)

lemma setCurrentTasks_other_key:
  "k \<noteq> fmt (selectedDate s) \<Longrightarrow> tasksByDate (setCurrentTasks fmt updater s) k = tasksByDate s k"
  by (simp add: setCurrentTasks_def Let_def)

lemma setCurrentTasks_fields:
  "selectedDate (setCurrentTasks fmt updater s) = selectedDate s"
  "view (setCurrentTasks fmt updater s) = view s"
  "year (setCurrentTasks fmt updater s) = year s"
  "editingId (setCurrentTasks fmt updater s) = editingId s"
  "editingValue (setCurrentTasks fmt updater s) = editingValue s"
  "newTask (setCurrentTasks fmt updater s) = newTask s"
  by (simp_all add: setCurrentTasks_def Let_def)

lemma trim_examples:
  "trim '''' = ''''" "trim ''   '' = ''''" "trim '' buy milk '' = ''buy milk''"
  "trim ''  new '' = ''new''"
  by (simp_all add: trim_def isWhiteSpace_def)

lemma currentTasks_init: "currentTasks fmt ((init today y)\<lparr>newTask := v\<rparr>) = []"
  by (simp add: currentTasks_def init_def)

lemma currentTasks_editing:
  "currentTasks fmt0 (editing v) =
     [\<lparr>id' = 5, text' = ''a'', completed = False\<rparr>, \<lparr>id' = 6, text' = ''b'', completed = True\<rparr>]"
  by (simp add: currentTasks_def editing_def fmt0_def)

lemma editing_fields:
  "editingId (editing v) = Some 6" "editingValue (editing v) = v"
  "fmt0 (selectedDate (editing v)) = ''1970-01-01''"
  by (simp_all add: editing_def fmt0_def)

lemmas handler_defs =
  run_def init_def rowShown_def editShown_def
  handleKeyDownNew_def handleNewTask_def editKeyDown_def saveEditing_def startEditing_def
  toggleTask_def deleteTask_def setCurrentTasks_def currentTasks_def
  addUpdater_def toggleUpdater_def deleteUpdater_def renameUpdater_def
  trim_def isWhiteSpace_def fmt0_def Let_def

text \<open>
  The scenario of the specification, on the sample key function: two tasks added, the
  first toggled, then the second, then both deleted.
\<close>

lemma status_scenario:
  "dayStatus (tasksByDate (run fmt0 (init (Valid 0) 2024)
      [NewChange ''a'', NewKeyDown ''Enter'' 1, NewChange ''b'', NewKeyDown ''Enter'' 2,
       Toggle 1])) ''1970-01-01'' = incomplete"
  "dayStatus (tasksByDate (run fmt0 (init (Valid 0) 2024)
      [NewChange ''a'', NewKeyDown ''Enter'' 1, NewChange ''b'', NewKeyDown ''Enter'' 2,
       Toggle 1, Toggle 2])) ''1970-01-01'' = complete"
  "dayStatus (tasksByDate (run fmt0 (init (Valid 0) 2024)
      [NewChange ''a'', NewKeyDown ''Enter'' 1, NewChange ''b'', NewKeyDown ''Enter'' 2,
       Toggle 1, Toggle 2, Delete 1, Delete 2])) ''1970-01-01'' = none"
  by (simp_all add: handler_defs dayStatus_def)

text \<open>
  C6. A mutation through the store helper, and so each of toggle, delete, add and rename,
  leaves the list of every date key other than the selected date's key as it was.
\<close>

theorem other_dates_untouched:
  assumes "k \<noteq> fmt (selectedDate s)"
  shows "tasksByDate (setCurrentTasks fmt updater s) k = tasksByDate s k \<and>
         tasksByDate (toggleTask fmt i s) k = tasksByDate s k \<and>
         tasksByDate (deleteTask fmt i s) k = tasksByDate s k \<and>
         tasksByDate (handleNewTask fmt now s) k = tasksByDate s k \<and>
         tasksByDate (saveEditing fmt s) k = tasksByDate s k"
proof -
  have helper: "tasksByDate (setCurrentTasks fmt u s) k = tasksByDate s k" for u
    using assms by (rule setCurrentTasks_other_key)
  have "tasksByDate (handleNewTask fmt now s) k = tasksByDate s k"
    by (simp add: handleNewTask_def Let_def helper)
  moreover have "tasksByDate (saveEditing fmt s) k = tasksByDate s k"
    by (cases "editingId s") (simp_all add: saveEditing_def helper)
  ultimately show ?thesis
    by (simp add: toggleTask_def deleteTask_def helper)
qed

theorem other_dates_untouched_witness:
  "tasksByDate (toggleTask fmt0 5 (editing [])) ''2024-03-15'' = None \<and>
   tasksByDate (deleteTask fmt0 5 (editing [])) ''2024-03-15'' = None \<and>
   tasksByDate (handleNewTask fmt0 9 ((editing [])\<lparr>newTask := ''c''\<rparr>)) ''2024-03-15'' = None \<and>
   tasksByDate (saveEditing fmt0 (editing ''new'')) ''2024-03-15'' = None"
proof -
  have key: "''2024-03-15'' \<noteq> fmt0 (selectedDate (editing v))" for v
    by (simp add: editing_fields)
  have key': "''2024-03-15'' \<noteq> fmt0 (selectedDate ((editing [])\<lparr>newTask := ''c''\<rparr>))"
    by (simp add: editing_def fmt0_def)
  have none: "tasksByDate (editing v) ''2024-03-15'' = None" for v
    by (simp add: editing_def)
  have none': "tasksByDate ((editing [])\<lparr>newTask := ''c''\<rparr>) ''2024-03-15'' = None"
    by (simp add: editing_def)
  show ?thesis
    using other_dates_untouched [of "''2024-03-15''" fmt0 "editing []" id 5 9]
      other_dates_untouched [of "''2024-03-15''" fmt0 "editing ''new''" id 5 9]
      other_dates_untouched [of "''2024-03-15''" fmt0 "(editing [])\<lparr>newTask := ''c''\<rparr>" id 5 9]
      key key'
    by (simp add: none none')
qed

section \<open>Adding\<close>

text \<open>
  C2. Adding is ignored when the trimmed input is empty: the state stays as it is.
  Otherwise the current list grows at its end by exactly one task, with the trimmed text
  and not completed.
\<close>

theorem handleNewTask_appends:
  "(trim (newTask s) = [] \<longrightarrow> handleNewTask fmt now s = s) \<and>
   currentTasks fmt (handleNewTask fmt now s) =
     (if trim (newTask s) = [] then currentTasks fmt s
      else currentTasks fmt s @ [\<lparr>id' = now, text' = trim (newTask s), completed = False\<rparr>])"
  by (simp add: handleNewTask_def Let_def currentTasks_setCurrentTasks addUpdater_def
      currentTasks_def setCurrentTasks_def)

theorem handleNewTask_appends_witness:
  "handleNewTask fmt0 7 ((init (Valid 0) 2024)\<lparr>newTask := ''''\<rparr>) =
     (init (Valid 0) 2024)\<lparr>newTask := ''''\<rparr> \<and>
   handleNewTask fmt0 7 ((init (Valid 0) 2024)\<lparr>newTask := ''   ''\<rparr>) =
     (init (Valid 0) 2024)\<lparr>newTask := ''   ''\<rparr> \<and>
   currentTasks fmt0 (handleNewTask fmt0 7 ((init (Valid 0) 2024)\<lparr>newTask := '' buy milk ''\<rparr>)) =
     [\<lparr>id' = 7, text' = ''buy milk'', completed = False\<rparr>]"
proof -
  let ?s = "\<lambda>v. (init (Valid 0) 2024)\<lparr>newTask := v\<rparr>"
  have "handleNewTask fmt0 7 (?s '''') = ?s ''''"
    using handleNewTask_appends [of "?s ''''" fmt0 7] by (simp add: trim_examples)
  moreover have "handleNewTask fmt0 7 (?s ''   '') = ?s ''   ''"
    using handleNewTask_appends [of "?s ''   ''" fmt0 7] by (simp add: trim_examples)
  moreover have "currentTasks fmt0 (handleNewTask fmt0 7 (?s '' buy milk '')) =
      [\<lparr>id' = 7, text' = ''buy milk'', completed = False\<rparr>]"
    using handleNewTask_appends [of "?s '' buy milk ''" fmt0 7]
    by (simp add: trim_examples currentTasks_init)
  ultimately show ?thesis by simp
qed

section \<open>Toggling\<close>

text \<open>
  Toggling keeps the length, the order and the ids; it flips the flag of every task with
  the id, and of no other. When the ids of the list are distinct that is one task.
\<close>

lemma toggleUpdater_length: "length (toggleUpdater i list) = length list"
  by (simp add: toggleUpdater_def)

lemma toggleUpdater_nth:
  "n < length list \<Longrightarrow>
   toggleUpdater i list ! n =
     (if id' (list ! n) = i then (list ! n)\<lparr>completed := \<not> completed (list ! n)\<rparr> else list ! n)"
  by (simp add: toggleUpdater_def)

lemma toggleUpdater_absent: "i \<notin> set (map id' list) \<Longrightarrow> toggleUpdater i list = list"
  by (induction list) (simp_all add: toggleUpdater_def)

lemma toggleUpdater_ids: "map id' (toggleUpdater i list) = map id' list"
  by (induction list) (simp_all add: toggleUpdater_def)

lemma toggleUpdater_distinct:
  "distinct (map id' list) \<Longrightarrow> n < length list \<Longrightarrow> id' (list ! n) = i \<Longrightarrow>
   toggleUpdater i list = list[n := (list ! n)\<lparr>completed := \<not> completed (list ! n)\<rparr>]"
proof (rule nth_equalityI)
  show "length (toggleUpdater i list) =
        length (list[n := (list ! n)\<lparr>completed := \<not> completed (list ! n)\<rparr>])"
    by (simp add: toggleUpdater_length)
next
  fix m
  assume d: "distinct (map id' list)" and n: "n < length list" and i: "id' (list ! n) = i"
    and "m < length (toggleUpdater i list)"
  then have m: "m < length list" by (simp add: toggleUpdater_length)
  have "id' (list ! m) = i \<longleftrightarrow> m = n"
  proof
    assume "id' (list ! m) = i"
    with i m n have "map id' list ! m = map id' list ! n" by simp
    with d m n show "m = n"
      using nth_eq_iff_index_eq [of "map id' list" m n] by simp
  next
    assume "m = n" with i show "id' (list ! m) = i" by simp
  qed
  with m n show "toggleUpdater i list ! m =
      list[n := (list ! n)\<lparr>completed := \<not> completed (list ! n)\<rparr>] ! m"
    by (auto simp: toggleUpdater_nth nth_list_update)
qed

lemma toggleUpdater_twice: "toggleUpdater i (toggleUpdater i list) = list"
  by (induction list) (simp_all add: toggleUpdater_def)

text \<open>
  C10. Toggling the same id twice gives back the list there was, for the updater and for
  the current list of the state, whether or not the id is in the list.
\<close>

theorem toggleTask_involution:
  "toggleUpdater i (toggleUpdater i list) = list \<and>
   currentTasks fmt (toggleTask fmt i (toggleTask fmt i s)) = currentTasks fmt s"
  by (simp add: toggleTask_def currentTasks_setCurrentTasks toggleUpdater_twice)

theorem toggleTask_involution_witness:
  "currentTasks fmt0 (toggleTask fmt0 5 (toggleTask fmt0 5 (editing []))) =
     [\<lparr>id' = 5, text' = ''a'', completed = False\<rparr>, \<lparr>id' = 6, text' = ''b'', completed = True\<rparr>]"
  using toggleTask_involution [of 5 "[]" fmt0 "editing []"]
  by (simp add: currentTasks_editing)

text \<open>
  C3. Two tasks added under the same clock value share their id, and one click on the box
  of either flips both: the other task does not stay as it was.
\<close>

theorem toggle_shared_id:
  "currentTasks fmt0
     (run fmt0 (init (Valid 0) 2024)
        [NewChange ''a'', NewKeyDown ''Enter'' 5, NewChange ''b'', NewKeyDown ''Enter'' 5]) =
   [\<lparr>id' = 5, text' = ''a'', completed = False\<rparr>, \<lparr>id' = 5, text' = ''b'', completed = False\<rparr>] \<and>
   currentTasks fmt0
     (run fmt0 (init (Valid 0) 2024)
        [NewChange ''a'', NewKeyDown ''Enter'' 5, NewChange ''b'', NewKeyDown ''Enter'' 5,
         Toggle 5]) =
   [\<lparr>id' = 5, text' = ''a'', completed = True\<rparr>, \<lparr>id' = 5, text' = ''b'', completed = True\<rparr>]"
  by (simp add: handler_defs)

section \<open>Deleting\<close>

text \<open>
  Deleting an absent id changes nothing. When the ids are distinct, deleting removes the
  one task with the id and keeps the tasks before and after it in their order.
\<close>

lemma deleteUpdater_absent: "i \<notin> set (map id' list) \<Longrightarrow> deleteUpdater i list = list"
  by (induction list) (auto simp: deleteUpdater_def)

lemma deleteUpdater_distinct:
  "distinct (map id' (xs @ t # ys)) \<Longrightarrow> deleteUpdater (id' t) (xs @ t # ys) = xs @ ys"
proof -
  assume d: "distinct (map id' (xs @ t # ys))"
  then have "id' t \<notin> set (map id' xs)" and "id' t \<notin> set (map id' ys)" by auto
  then have "deleteUpdater (id' t) xs = xs" and "deleteUpdater (id' t) ys = ys"
    by (simp_all add: deleteUpdater_absent)
  then show ?thesis by (simp add: deleteUpdater_def)
qed

lemma deleteUpdater_ids:
  "map id' (deleteUpdater i list) = filter (\<lambda>j. j \<noteq> i) (map id' list)"
  by (induction list) (simp_all add: deleteUpdater_def)

text \<open>
  C4. With two tasks sharing an id, one delete removes both entries, not exactly one.
\<close>

theorem delete_shared_id:
  "currentTasks fmt0
     (run fmt0 (init (Valid 0) 2024)
        [NewChange ''a'', NewKeyDown ''Enter'' 5, NewChange ''b'', NewKeyDown ''Enter'' 5]) =
   [\<lparr>id' = 5, text' = ''a'', completed = False\<rparr>, \<lparr>id' = 5, text' = ''b'', completed = False\<rparr>] \<and>
   currentTasks fmt0
     (run fmt0 (init (Valid 0) 2024)
        [NewChange ''a'', NewKeyDown ''Enter'' 5, NewChange ''b'', NewKeyDown ''Enter'' 5,
         Delete 5]) = []"
  by (simp add: handler_defs)

section \<open>Renaming\<close>

lemma renameUpdater_length: "length (renameUpdater i v list) = length list"
  by (simp add: renameUpdater_def)

lemma renameUpdater_nth:
  "n < length list \<Longrightarrow>
   renameUpdater i v list ! n =
     (if id' (list ! n) = i
      then (list ! n)\<lparr>text' := (if v = [] then text' (list ! n) else v)\<rparr> else list ! n)"
  by (simp add: renameUpdater_def)

lemma renameUpdater_ids: "map id' (renameUpdater i v list) = map id' list"
  by (induction list) (simp_all add: renameUpdater_def)

lemma renameUpdater_empty: "renameUpdater i [] list = list"
  by (induction list) (simp_all add: renameUpdater_def)

lemma currentTasks_saveEditing:
  "editingId s = Some i \<Longrightarrow>
   currentTasks fmt (saveEditing fmt s) = renameUpdater i (trim (editingValue s)) (currentTasks fmt s)"
  by (simp add: saveEditing_def currentTasks_def setCurrentTasks_def Let_def)

text \<open>
  C5. Saving an edit leaves the text of the edited task as it was when the trimmed buffer
  is empty, and sets it to the trimmed buffer otherwise; the length of the list and the
  task's id and flag stay.
\<close>

theorem saveEditing_renames:
  assumes "editingId s = Some i" and "n < length (currentTasks fmt s)"
    and "id' (currentTasks fmt s ! n) = i"
  shows "length (currentTasks fmt (saveEditing fmt s)) = length (currentTasks fmt s) \<and>
         text' (currentTasks fmt (saveEditing fmt s) ! n) =
           (if trim (editingValue s) = [] then text' (currentTasks fmt s ! n)
            else trim (editingValue s)) \<and>
         id' (currentTasks fmt (saveEditing fmt s) ! n) = i \<and>
         completed (currentTasks fmt (saveEditing fmt s) ! n) = completed (currentTasks fmt s ! n)"
  using assms
  by (simp add: currentTasks_saveEditing renameUpdater_length renameUpdater_nth)

theorem saveEditing_renames_witness:
  "text' (currentTasks fmt0 (saveEditing fmt0 (editing '''')) ! 1) = ''b'' \<and>
   text' (currentTasks fmt0 (saveEditing fmt0 (editing ''  new '')) ! 1) = ''new''"
proof -
  have "text' (currentTasks fmt0 (saveEditing fmt0 (editing '''')) ! 1) = ''b''"
    using saveEditing_renames [of "editing ''''" 6 1 fmt0]
    by (simp add: editing_fields currentTasks_editing trim_examples)
  moreover have "text' (currentTasks fmt0 (saveEditing fmt0 (editing ''  new '')) ! 1) = ''new''"
    using saveEditing_renames [of "editing ''  new ''" 6 1 fmt0]
    by (simp add: editing_fields currentTasks_editing trim_examples)
  ultimately show ?thesis by simp
qed

section \<open>Escape in the edit field\<close>

text \<open>
  C9, as the code has it. Escape empties the buffer and changes neither the store nor
  the id being edited: the edit field stays open. The commit that follows on blur or
  Enter then closes it, with an empty buffer and every task as it was.
\<close>

theorem escape_then_commit:
  "editingValue (editKeyDown fmt ''Escape'' s) = [] \<and>
   editingId (editKeyDown fmt ''Escape'' s) = editingId s \<and>
   tasksByDate (editKeyDown fmt ''Escape'' s) = tasksByDate s \<and>
   (editingId s \<noteq> None \<longrightarrow>
      editingId (saveEditing fmt (editKeyDown fmt ''Escape'' s)) = None \<and>
      editingValue (saveEditing fmt (editKeyDown fmt ''Escape'' s)) = [] \<and>
      currentTasks fmt (saveEditing fmt (editKeyDown fmt ''Escape'' s)) = currentTasks fmt s)"
proof -
  have esc: "editKeyDown fmt ''Escape'' s = s\<lparr>editingValue := []\<rparr>"
    by (simp add: editKeyDown_def)
  have "trim [] = []" by (simp add: trim_def)
  then have "currentTasks fmt (saveEditing fmt (s\<lparr>editingValue := []\<rparr>)) = currentTasks fmt s"
    if "editingId s = Some i" for i
    using that currentTasks_saveEditing [of "s\<lparr>editingValue := []\<rparr>" i fmt]
    by (simp add: renameUpdater_empty currentTasks_def)
  moreover have "editingId (saveEditing fmt (s\<lparr>editingValue := []\<rparr>)) = None \<and>
      editingValue (saveEditing fmt (s\<lparr>editingValue := []\<rparr>)) = []"
    if "editingId s = Some i" for i
    using that by (simp add: saveEditing_def)
  ultimately show ?thesis using esc by auto
qed

theorem escape_then_commit_witness:
  "editingId (editKeyDown fmt0 ''Escape'' (editing ''draft'')) = Some 6 \<and>
   editingValue (editKeyDown fmt0 ''Escape'' (editing ''draft'')) = [] \<and>
   editingId (saveEditing fmt0 (editKeyDown fmt0 ''Escape'' (editing ''draft''))) = None \<and>
   currentTasks fmt0 (saveEditing fmt0 (editKeyDown fmt0 ''Escape'' (editing ''draft''))) =
     [\<lparr>id' = 5, text' = ''a'', completed = False\<rparr>, \<lparr>id' = 6, text' = ''b'', completed = True\<rparr>]"
  using escape_then_commit [of fmt0 "editing ''draft''"]
  by (simp add: editing_fields currentTasks_editing)

text \<open>
  C9 as stated fails: after Escape in the edit field of a task, that task is still the
  one being edited.
\<close>

theorem escape_keeps_edit_mode:
  "editingId
     (run fmt0 (init (Valid 0) 2024)
        [NewChange ''a'', NewKeyDown ''Enter'' 5,
         StartEdit \<lparr>id' = 5, text' = ''a'', completed = False\<rparr>, EditKeyDown ''Escape'']) = Some 5"
  by (simp add: handler_defs)

section \<open>Ids of reachable stores\<close>

lemma reachable_run: "reachable fmt s \<Longrightarrow> reachable fmt (run fmt s es)"
  unfolding run_def by (induction es arbitrary: s) (simp_all add: reach_step)

lemma currentTasks_ids_in_store:
  "set (map id' (currentTasks fmt s)) \<subseteq> storeIds (tasksByDate s)"
proof (cases "tasksByDate s (fmt (selectedDate s))")
  case None
  then show ?thesis by (simp add: currentTasks_def)
next
  case (Some list)
  then have "currentTasks fmt s = list" by (simp add: currentTasks_def)
  with Some show ?thesis unfolding storeIds_def by blast
qed

lemma uniqueIds_current: "uniqueIds (tasksByDate s) \<Longrightarrow> distinct (map id' (currentTasks fmt s))"
  by (auto simp: currentTasks_def uniqueIds_def split: option.splits)

lemma uniqueIds_setCurrentTasks:
  assumes u: "uniqueIds (tasksByDate s)"
    and d: "distinct (map id' (updater (currentTasks fmt s)))"
    and sub: "set (map id' (updater (currentTasks fmt s)))
               \<subseteq> set (map id' (currentTasks fmt s)) \<union> - storeIds (tasksByDate s)"
  shows "uniqueIds (tasksByDate (setCurrentTasks fmt updater s))"
proof -
  let ?key = "fmt (selectedDate s)"
  let ?new = "updater (currentTasks fmt s)"
  have store: "tasksByDate (setCurrentTasks fmt updater s) = (tasksByDate s)(?key \<mapsto> ?new)"
    by (simp add: setCurrentTasks_def currentTasks_def Let_def)
  have apart: "set (map id' ?new) \<inter> set (map id' list) = {}"
    if "k \<noteq> ?key" and "tasksByDate s k = Some list" for k list
  proof -
    have "set (map id' list) \<subseteq> storeIds (tasksByDate s)"
      using that by (auto simp: storeIds_def)
    moreover have "set (map id' (currentTasks fmt s)) \<inter> set (map id' list) = {}"
    proof (cases "tasksByDate s ?key")
      case None
      then show ?thesis by (simp add: currentTasks_def)
    next
      case (Some cur)
      with u that have "set (map id' cur) \<inter> set (map id' list) = {}"
        unfolding uniqueIds_def by blast
      with Some show ?thesis by (simp add: currentTasks_def)
    qed
    ultimately show ?thesis using sub by blast
  qed
  show ?thesis
    unfolding store uniqueIds_def
  proof (intro conjI allI impI)
    fix k list
    assume "((tasksByDate s)(?key \<mapsto> ?new)) k = Some list"
    with u d show "distinct (map id' list)"
      by (cases "k = ?key") (auto simp: uniqueIds_def)
  next
    fix k1 k2 l1 l2
    assume ne: "k1 \<noteq> k2"
      and b1: "((tasksByDate s)(?key \<mapsto> ?new)) k1 = Some l1"
      and b2: "((tasksByDate s)(?key \<mapsto> ?new)) k2 = Some l2"
    consider "k1 = ?key" | "k2 = ?key" | "k1 \<noteq> ?key" "k2 \<noteq> ?key" by blast
    then show "set (map id' l1) \<inter> set (map id' l2) = {}"
    proof cases
      case 1
      with ne b1 b2 have "l1 = ?new" and "tasksByDate s k2 = Some l2" and "k2 \<noteq> ?key" by auto
      then show ?thesis using apart by blast
    next
      case 2
      with ne b1 b2 have "l2 = ?new" and "tasksByDate s k1 = Some l1" and "k1 \<noteq> ?key" by auto
      then show ?thesis using apart by blast
    next
      case 3
      with b1 b2 have "tasksByDate s k1 = Some l1" and "tasksByDate s k2 = Some l2" by auto
      with u ne show ?thesis unfolding uniqueIds_def by blast
    qed
  qed
qed

lemma uniqueIds_toggleTask: "uniqueIds (tasksByDate s) \<Longrightarrow> uniqueIds (tasksByDate (toggleTask fmt i s))"
  unfolding toggleTask_def
  by (rule uniqueIds_setCurrentTasks) (simp_all add: toggleUpdater_ids uniqueIds_current)

lemma uniqueIds_deleteTask: "uniqueIds (tasksByDate s) \<Longrightarrow> uniqueIds (tasksByDate (deleteTask fmt i s))"
  unfolding deleteTask_def
  by (rule uniqueIds_setCurrentTasks)
    (auto simp: deleteUpdater_ids uniqueIds_current distinct_filter)

lemma uniqueIds_saveEditing: "uniqueIds (tasksByDate s) \<Longrightarrow> uniqueIds (tasksByDate (saveEditing fmt s))"
proof (cases "editingId s")
  case None
  assume "uniqueIds (tasksByDate s)"
  with None show ?thesis by (simp add: saveEditing_def)
next
  case (Some i)
  assume u: "uniqueIds (tasksByDate s)"
  then have "uniqueIds (tasksByDate (setCurrentTasks fmt (renameUpdater i (trim (editingValue s))) s))"
    by (rule uniqueIds_setCurrentTasks) (simp_all add: renameUpdater_ids uniqueIds_current [OF u])
  with Some show ?thesis by (simp add: saveEditing_def)
qed

lemma uniqueIds_handleNewTask:
  assumes "uniqueIds (tasksByDate s)" and "now \<notin> storeIds (tasksByDate s)"
  shows "uniqueIds (tasksByDate (handleNewTask fmt now s))"
proof (cases "trim (newTask s) = []")
  case True
  with assms show ?thesis by (simp add: handleNewTask_def)
next
  case False
  have "now \<notin> set (map id' (currentTasks fmt s))"
    using assms(2) currentTasks_ids_in_store [of fmt s] by blast
  with assms have "uniqueIds (tasksByDate (setCurrentTasks fmt (addUpdater now (trim (newTask s))) s))"
    by (intro uniqueIds_setCurrentTasks) (auto simp: addUpdater_def uniqueIds_current)
  with False show ?thesis by (simp add: handleNewTask_def Let_def)
qed

lemma uniqueIds_step:
  "uniqueIds (tasksByDate s) \<Longrightarrow> clockFresh s e \<Longrightarrow> uniqueIds (tasksByDate (step fmt s e))"
  by (cases e)
    (simp_all add: uniqueIds_toggleTask uniqueIds_deleteTask uniqueIds_saveEditing
      uniqueIds_handleNewTask startEditing_def editKeyDown_def handleKeyDownNew_def)

lemma reachableFresh_uniqueIds: "reachableFresh fmt s \<Longrightarrow> uniqueIds (tasksByDate s)"
proof (induction rule: reachableFresh.induct)
  case (fresh_init today y)
  show ?case by (simp add: init_def uniqueIds_def)
next
  case (fresh_step s e)
  then show ?case by (simp add: uniqueIds_step)
qed

text \<open>
  C8. Two additions handled under the same clock value give a reachable store in which
  two tasks share an id.
\<close>

theorem same_clock_shares_id:
  "reachable fmt0
     (run fmt0 (init (Valid 0) 2024)
        [NewChange ''a'', NewKeyDown ''Enter'' 5, NewChange ''b'', NewKeyDown ''Enter'' 5]) \<and>
   map id' (currentTasks fmt0
     (run fmt0 (init (Valid 0) 2024)
        [NewChange ''a'', NewKeyDown ''Enter'' 5, NewChange ''b'', NewKeyDown ''Enter'' 5])) = [5, 5]"
proof
  show "reachable fmt0
     (run fmt0 (init (Valid 0) 2024)
        [NewChange ''a'', NewKeyDown ''Enter'' 5, NewChange ''b'', NewKeyDown ''Enter'' 5])"
    by (rule reachable_run) (rule reach_init)
next
  show "map id' (currentTasks fmt0
     (run fmt0 (init (Valid 0) 2024)
        [NewChange ''a'', NewKeyDown ''Enter'' 5, NewChange ''b'', NewKeyDown ''Enter'' 5])) = [5, 5]"
    by (simp add: handler_defs)
qed

section \<open>The month grid of the calendar\<close>

lemma leadLoop_closed: "leadLoop i (Some n) cells = cells @ replicate (nat (n - i)) None"
proof (induction "nat (n - i)" arbitrary: i cells)
  case 0
  then show ?case by (simp add: leadLoop.simps)
next
  case (Suc k)
  then have "i < n" and "k = nat (n - (i + 1))" by simp_all
  with Suc(1) [of "i + 1" "cells @ [None]"] Suc(2) [symmetric] show ?case
    by (simp add: leadLoop.simps(2) [of i n] replicate_app_Cons_same)
qed

lemma dayLoop_closed:
  "dayLoop tza y m d (Some n) cells = cells @ map (\<lambda>k. Some (newDate tza y m k)) [d..n]"
proof (induction "nat (n + 1 - d)" arbitrary: d cells)
  case 0
  then show ?case by (simp add: dayLoop.simps)
next
  case (Suc k)
  then have le: "d \<le> n" and "k = nat (n + 1 - (d + 1))" by simp_all
  moreover from le have "[d..n] = d # [d + 1..n]" by (simp add: upto_rec1)
  ultimately show ?case
    using Suc(1) [of "d + 1" "cells @ [Some (newDate tza y m d)]"]
    by (simp add: dayLoop.simps(2) [of tza y m d n])
qed

lemma padLoop_closed:
  "padLoop cells = cells @ replicate ((7 - length cells mod 7) mod 7) None"
proof (induction cells rule: padLoop.induct)
  case (1 cells)
  show ?case
  proof (cases "length cells mod 7 = 0")
    case True
    then show ?thesis by (simp add: padLoop.simps [of cells])
  next
    case False
    moreover have "length cells mod 7 < 7" by simp
    ultimately have "(7 - length cells mod 7) mod 7 = Suc ((7 - Suc (length cells) mod 7) mod 7)"
      by (auto simp: mod_Suc)
    with False 1 show ?thesis
      by (simp add: padLoop.simps [of cells] replicate_app_Cons_same)
  qed
qed

lemma pad_total:
  fixes n :: nat
  shows "(n + (7 - n mod 7) mod 7) mod 7 = 0"
proof (cases "n mod 7 = 0")
  case True
  then show ?thesis by simp
next
  case False
  have lt: "n mod 7 < 7" by simp
  with False have "(7 - n mod 7) mod 7 = 7 - n mod 7" by simp
  moreover have "(n + (7 - n mod 7)) mod 7 = (n mod 7 + (7 - n mod 7)) mod 7"
    by (simp only: mod_add_left_eq)
  moreover from lt have "n mod 7 + (7 - n mod 7) = 7" by simp
  ultimately show ?thesis by simp
qed

lemma padLoop_length: "length (padLoop cells) mod 7 = 0"
  by (simp add: padLoop_closed pad_total)

lemma yearDown_below: "TimeFromYear (yearDown t y) \<le> t"
proof (induction t y rule: yearDown.induct)
  case (1 t y)
  then show ?case by (cases "TimeFromYear y \<le> t") (simp_all add: yearDown.simps [of t y])
qed

lemma yearUp_bracket:
  "TimeFromYear y \<le> t \<Longrightarrow>
   TimeFromYear (yearUp t y) \<le> t \<and> t < TimeFromYear (yearUp t y + 1)"
proof (induction t y rule: yearUp.induct)
  case (1 t y)
  then show ?case by (cases "TimeFromYear (y + 1) \<le> t") (simp_all add: yearUp.simps [of t y])
qed

lemma YearFromTime_bracket:
  "TimeFromYear (YearFromTime t) \<le> t \<and> t < TimeFromYear (YearFromTime t + 1)"
  unfolding YearFromTime_def by (rule yearUp_bracket) (rule yearDown_below)

lemma YearFromTime_eq:
  assumes "TimeFromYear y \<le> t" and "t < TimeFromYear (y + 1)"
  shows "YearFromTime t = y"
proof (rule ccontr)
  let ?r = "YearFromTime t"
  assume "?r \<noteq> y"
  then consider "?r + 1 \<le> y" | "y + 1 \<le> ?r" by linarith
  then show False
  proof cases
    case 1
    then have "TimeFromYear (?r + 1) \<le> TimeFromYear y"
      using TimeFromYear_strict [of "?r + 1" y] by (cases "?r + 1 = y") simp_all
    with assms(1) YearFromTime_bracket [of t] show False by simp
  next
    case 2
    then have "TimeFromYear (y + 1) \<le> TimeFromYear ?r"
      using TimeFromYear_strict [of "y + 1" ?r] by (cases "y + 1 = ?r") simp_all
    with assms(2) YearFromTime_bracket [of t] show False by simp
  qed
qed

lemma Day_MakeDate: "Day (MakeDate d 0) = d"
  by (simp add: Day_def MakeDate_def msPerDay_def)

lemma within_year:
  assumes "0 \<le> k" and "k < DaysInYear y"
  shows "YearFromTime (MakeDate (DayFromYear y + k) 0) = y"
    and "DayWithinYear (MakeDate (DayFromYear y + k) 0) = k"
    and "InLeapYear (MakeDate (DayFromYear y + k) 0) = (if DaysInYear y = 366 then 1 else 0)"
proof -
  let ?t = "MakeDate (DayFromYear y + k) 0"
  have "TimeFromYear y \<le> ?t"
    using assms(1) by (simp add: TimeFromYear_def MakeDate_def msPerDay_def)
  moreover have "?t < TimeFromYear (y + 1)"
    using assms(2) by (simp add: TimeFromYear_def MakeDate_def msPerDay_def DayFromYear_next)
  ultimately show y: "YearFromTime ?t = y" by (rule YearFromTime_eq)
  then show "DayWithinYear ?t = k" by (simp add: DayWithinYear_def Day_MakeDate)
  from y show "InLeapYear ?t = (if DaysInYear y = 366 then 1 else 0)"
    by (simp add: InLeapYear_def)
qed

lemma DaysInYear_cases: "DaysInYear y = 365 \<or> DaysInYear y = 366"
  by (simp add: DaysInYear_def)

lemma MakeDay_month: "0 \<le> m \<Longrightarrow> m \<le> 11 \<Longrightarrow>
   MakeDay y m dt = DayFromYear y + (monthStart m (if DaysInYear y = 366 then 1 else 0) + dt - 1)"
  by (simp add: MakeDay_def)

lemma month_cases:
  fixes m :: int
  assumes "0 \<le> m" and "m \<le> 11"
  obtains "m = 0" | "m = 1" | "m = 2" | "m = 3" | "m = 4" | "m = 5"
    | "m = 6" | "m = 7" | "m = 8" | "m = 9" | "m = 10" | "m = 11"
proof -
  from assms have "m \<in> set [0..11]" by simp
  then have "m = 0 \<or> m = 1 \<or> m = 2 \<or> m = 3 \<or> m = 4 \<or> m = 5
      \<or> m = 6 \<or> m = 7 \<or> m = 8 \<or> m = 9 \<or> m = 10 \<or> m = 11"
    by (simp add: upto_rec1)
  then show thesis using that by blast
qed

lemma monthStart_range:
  assumes "0 \<le> m" and "m \<le> 11" and "1 \<le> dt" and "dt \<le> monthLength y m"
  shows "0 \<le> monthStart m (if DaysInYear y = 366 then 1 else 0) + dt - 1"
    and "monthStart m (if DaysInYear y = 366 then 1 else 0) + dt - 1 < DaysInYear y"
  using assms(1,2)
proof (atomize (full), cases rule: month_cases)
qed (use assms(3,4) DaysInYear_cases [of y] in \<open>auto simp: monthStart_def monthLength_def\<close>)

lemma dayOf_within:
  assumes "0 \<le> m" and "m \<le> 11"
  shows "dayOf y m dt =
    MakeDate (DayFromYear y + (monthStart m (if DaysInYear y = 366 then 1 else 0) + dt - 1)) 0"
  using assms by (simp add: dayOf_def MakeDay_month)

lemma dayOf_roundtrip:
  assumes m: "0 \<le> m" "m \<le> 11" and dt: "1 \<le> dt" "dt \<le> monthLength y m"
  shows "YearFromTime (dayOf y m dt) = y"
    and "MonthFromTime (dayOf y m dt) = m"
    and "DateFromTime (dayOf y m dt) = dt"
proof -
  let ?leap = "if DaysInYear y = 366 then 1 else 0 :: int"
  let ?k = "monthStart m ?leap + dt - 1"
  have k: "0 \<le> ?k" "?k < DaysInYear y"
    using monthStart_range [OF m dt] by simp_all
  have t: "dayOf y m dt = MakeDate (DayFromYear y + ?k) 0"
    using m by (rule dayOf_within)
  show "YearFromTime (dayOf y m dt) = y"
    unfolding t using k by (rule within_year(1))
  have dwy: "DayWithinYear (dayOf y m dt) = ?k"
    unfolding t using k by (rule within_year(2))
  have leap: "InLeapYear (dayOf y m dt) = ?leap"
    unfolding t using k by (rule within_year(3))
  show month: "MonthFromTime (dayOf y m dt) = m"
    unfolding MonthFromTime_def dwy leap Let_def
    using m
  proof (cases rule: month_cases)
  qed (use dt in \<open>auto simp: monthStart_def monthLength_def\<close>)
  show "DateFromTime (dayOf y m dt) = dt"
    unfolding DateFromTime_def dwy leap month Let_def
    using m
  proof (cases rule: month_cases)
  qed (simp_all add: monthStart_def)
qed

lemma MakeDay_last:
  assumes "0 \<le> m" and "m \<le> 11"
  shows "MakeDay y (m + 1) 0 = MakeDay y m (monthLength y m)"
proof (cases "m = 11")
  case True
  have "MakeDay y 12 0 = DayFromYear (y + 1) - 1"
    by (simp add: MakeDay_def monthStart_def)
  also have "\<dots> = DayFromYear y + DaysInYear y - 1"
    by (simp add: DayFromYear_next)
  also have "\<dots> = MakeDay y 11 (monthLength y 11)"
    using DaysInYear_cases [of y] by (auto simp: MakeDay_def monthStart_def monthLength_def)
  finally show ?thesis using True by simp
next
  case False
  with assms have "0 \<le> m + 1" and "m + 1 \<le> 11" by simp_all
  then have "MakeDay y (m + 1) 0 =
      DayFromYear y + (monthStart (m + 1) (if DaysInYear y = 366 then 1 else 0) + 0 - 1)"
    by (rule MakeDay_month)
  moreover have "MakeDay y m (monthLength y m) =
      DayFromYear y + (monthStart m (if DaysInYear y = 366 then 1 else 0) + monthLength y m - 1)"
    using assms by (rule MakeDay_month)
  moreover have "monthStart (m + 1) l = monthStart m l + monthLength y m"
    if "l = (if DaysInYear y = 366 then 1 else 0)" for l
    using assms
  proof (cases rule: month_cases)
  qed (use False that in \<open>simp_all add: monthStart_def monthLength_def\<close>)
  ultimately show ?thesis by simp
qed

lemma monthLength_pos: "1 \<le> monthLength y m"
  by (simp add: monthLength_def)

lemma mult_le_iff_le_div:
  fixes a t c :: int
  assumes "0 < c"
  shows "c * a \<le> t \<longleftrightarrow> a \<le> t div c"
proof
  assume "c * a \<le> t"
  then have "(c * a) div c \<le> t div c" using assms by (rule zdiv_mono1)
  with assms show "a \<le> t div c" by simp
next
  assume "a \<le> t div c"
  with assms have "c * a \<le> c * (t div c)" by simp
  also have "\<dots> = t - t mod c" by (simp add: minus_mod_eq_mult_div)
  also have "\<dots> \<le> t" using assms by simp
  finally show "c * a \<le> t" .
qed

lemma TimeFromYear_le_iff: "TimeFromYear y \<le> t \<longleftrightarrow> DayFromYear y \<le> Day t"
  unfolding TimeFromYear_def Day_def by (rule mult_le_iff_le_div) (simp add: msPerDay_def)

text \<open>The calendar fields of a time value depend on its day only.\<close>

lemma YearFromTime_Day:
  assumes "Day t = Day u"
  shows "YearFromTime t = YearFromTime u"
proof (rule YearFromTime_eq)
  show "TimeFromYear (YearFromTime u) \<le> t"
    using YearFromTime_bracket [of u] assms by (simp add: TimeFromYear_le_iff)
  have "\<not> TimeFromYear (YearFromTime u + 1) \<le> u"
    using YearFromTime_bracket [of u] by simp
  then have "\<not> TimeFromYear (YearFromTime u + 1) \<le> t"
    using assms by (simp add: TimeFromYear_le_iff)
  then show "t < TimeFromYear (YearFromTime u + 1)" by simp
qed

lemma DateFromTime_Day:
  assumes "Day t = Day u"
  shows "DateFromTime t = DateFromTime u"
proof -
  have y: "YearFromTime t = YearFromTime u" using assms by (rule YearFromTime_Day)
  then have "DayWithinYear t = DayWithinYear u" and "InLeapYear t = InLeapYear u"
    using assms by (simp_all add: DayWithinYear_def InLeapYear_def)
  then show ?thesis by (simp add: DateFromTime_def MonthFromTime_def)
qed

lemma WeekDay_Day: "Day t = Day u \<Longrightarrow> WeekDay t = WeekDay u"
  by (simp add: WeekDay_def)

lemma UTC_in_range:
  assumes y: "- 271820 \<le> y" "y \<le> 275759"
    and m: "0 \<le> m" "m \<le> 11" and dt: "1 \<le> dt" "dt \<le> monthLength y m"
    and off: "\<forall>t b. \<bar>tza t b\<bar> \<le> msPerDay"
  shows "TimeClip (UTC tza (dayOf y m dt)) = Valid (UTC tza (dayOf y m dt))"
proof -
  let ?k = "monthStart m (if DaysInYear y = 366 then 1 else 0) + dt - 1"
  have k: "0 \<le> ?k" "?k < DaysInYear y"
    using monthStart_range [OF m dt] by simp_all
  have "DayFromYear (- 271820) \<le> DayFromYear y"
    using y(1) by (rule DayFromYear_mono)
  moreover have "DayFromYear (y + 1) \<le> DayFromYear 275760"
    using y(2) by (intro DayFromYear_mono) simp
  moreover have "DayFromYear (- 271820) = - 99999744" and "DayFromYear 275760 = 99999744"
    by (simp_all add: DayFromYear_def)
  ultimately have "- 99999744 \<le> DayFromYear y + ?k" and "DayFromYear y + ?k < 99999744"
    using k by (simp_all add: DayFromYear_next)
  then have "\<bar>dayOf y m dt\<bar> \<le> 8639977881600000"
    unfolding dayOf_within [OF m] by (simp add: MakeDate_def msPerDay_def)
  moreover have "\<bar>tza (dayOf y m dt) False\<bar> \<le> 86400000"
    using off by (simp add: msPerDay_def)
  ultimately have "\<bar>UTC tza (dayOf y m dt)\<bar> \<le> 8640000000000000"
    by (simp add: UTC_def)
  then show ?thesis by (simp add: TimeClip_def)
qed

lemma newDate_plain:
  "y < 0 \<or> 99 < y \<Longrightarrow> newDate tza y m dt = TimeClip (UTC tza (dayOf y m dt))"
  by (auto simp: newDate_def dayOf_def)

lemma newDate_two_digit:
  "0 \<le> y \<Longrightarrow> y \<le> 99 \<Longrightarrow> newDate tza y m dt = newDate tza (1900 + y) m dt"
  by (simp add: newDate_def)

lemma WeekDay_range: "0 \<le> WeekDay t" "WeekDay t \<le> 6"
  by (simp_all add: WeekDay_def)

lemma mondayFirst_mod: "0 \<le> w \<Longrightarrow> w \<le> 6 \<Longrightarrow> (w + 6) mod 7 = mondayFirst w"
proof -
  assume "0 \<le> w" and "w \<le> 6"
  then have "w \<in> set [0..6]" by simp
  then have "w = 0 \<or> w = 1 \<or> w = 2 \<or> w = 3 \<or> w = 4 \<or> w = 5 \<or> w = 6"
    by (simp add: upto_rec1)
  then show ?thesis by (auto simp: mondayFirst_def)
qed

lemma Month_cells_closed:
  "Month_cells tza y m =
     (case getDate tza (newDate tza y (m + 1) 0) of
        None \<Rightarrow>
          padLoop (leadLoop 0
            (map_option (\<lambda>g. (g + 6) mod 7) (getDay tza (newDate tza y m 1))) [])
      | Some n \<Rightarrow>
          padLoop (leadLoop 0
            (map_option (\<lambda>g. (g + 6) mod 7) (getDay tza (newDate tza y m 1))) []
            @ map (\<lambda>k. Some (newDate tza y m k)) [1..n]))"
  by (simp add: Month_cells_def Let_def dayLoop_closed dayLoop.simps(1) split: option.split)

text \<open>For a year from 0 to 99 the grid is that of the year 1900 years later.\<close>

lemma Month_cells_two_digit:
  assumes "0 \<le> y" and "y \<le> 99"
  shows "Month_cells tza y m = Month_cells tza (1900 + y) m"
proof -
  have "newDate tza y = newDate tza (1900 + y)"
    using assms by (intro ext) (rule newDate_two_digit)
  then show ?thesis unfolding Month_cells_closed by (rule arg_cong [where f = "\<lambda>f. _ f"])
qed

lemma Month_cells_layout:
  assumes plain: "y < 0 \<or> 99 < y" and y: "- 271820 \<le> y" "y \<le> 275759"
    and m: "0 \<le> m" "m \<le> 11"
    and off: "\<forall>t b. \<bar>tza t b\<bar> \<le> msPerDay"
    and same: "\<forall>d \<in> {1..monthLength y m}.
      Day (LocalTime tza (UTC tza (dayOf y m d))) = Day (dayOf y m d)"
  shows "Month_cells tza y m =
     replicate (nat (mondayFirst (WeekDay (dayOf y m 1)))) None
     @ map (\<lambda>d. Some (Valid (UTC tza (dayOf y m d)))) [1..monthLength y m]
     @ replicate
         ((7 - (nat (mondayFirst (WeekDay (dayOf y m 1))) + nat (monthLength y m)) mod 7) mod 7)
         None"
proof -
  let ?n = "monthLength y m"
  have valid: "newDate tza y m dt = Valid (UTC tza (dayOf y m dt))"
    if "1 \<le> dt" "dt \<le> ?n" for dt
    using plain that by (simp add: newDate_plain UTC_in_range [OF y m _ _ off])
  have day: "Day (LocalTime tza (UTC tza (dayOf y m dt))) = Day (dayOf y m dt)"
    if "1 \<le> dt" "dt \<le> ?n" for dt
    using same that by simp
  have "newDate tza y (m + 1) 0 = TimeClip (UTC tza (dayOf y (m + 1) 0))"
    using plain by (rule newDate_plain)
  also have "dayOf y (m + 1) 0 = dayOf y m ?n"
    using m by (simp add: dayOf_def MakeDay_last)
  also have "TimeClip (UTC tza (dayOf y m ?n)) = Valid (UTC tza (dayOf y m ?n))"
    using y m monthLength_pos _ off by (rule UTC_in_range) simp
  finally have "getDate tza (newDate tza y (m + 1) 0)
      = Some (DateFromTime (LocalTime tza (UTC tza (dayOf y m ?n))))"
    by (simp add: getDate_def)
  also have "DateFromTime (LocalTime tza (UTC tza (dayOf y m ?n))) = DateFromTime (dayOf y m ?n)"
    using monthLength_pos [of y m] by (intro DateFromTime_Day day) simp_all
  also have "\<dots> = ?n"
    using dayOf_roundtrip(3) [OF m monthLength_pos, of y] by simp
  finally have days: "getDate tza (newDate tza y (m + 1) 0) = Some ?n" .
  have "getDay tza (newDate tza y m 1) = Some (WeekDay (LocalTime tza (UTC tza (dayOf y m 1))))"
    using valid [of 1] monthLength_pos [of y m] by (simp add: getDay_def)
  also have "WeekDay (LocalTime tza (UTC tza (dayOf y m 1))) = WeekDay (dayOf y m 1)"
    using monthLength_pos [of y m] by (intro WeekDay_Day day) simp_all
  finally have start: "map_option (\<lambda>g. (g + 6) mod 7) (getDay tza (newDate tza y m 1))
      = Some (mondayFirst (WeekDay (dayOf y m 1)))"
    by (simp add: mondayFirst_mod WeekDay_range)
  have cells: "map (\<lambda>k. Some (newDate tza y m k)) [1..?n]
      = map (\<lambda>d. Some (Valid (UTC tza (dayOf y m d)))) [1..?n]"
    by (auto simp: valid)
  show ?thesis
    unfolding Month_cells_closed days start
    by (simp add: leadLoop_closed padLoop_closed cells)
qed

lemmas calendar_defs =
  dayOf_def MakeDate_def MakeDay_def DayFromYear_def DaysInYear_def monthStart_def
  monthLength_def msPerDay_def WeekDay_def Day_def mondayFirst_def

text \<open>
  C7, for the years the code lays out as themselves and the time zones that skip no day
  of the month. Take a year from -271820 to 275759 that is not one of 0 to 99, a month
  from 0 to 11, and a local time zone whose offsets are at most a day and in which the
  date built for the start of each day of the month reads back, in local time, on that
  day. Then the grid is: as many blank cells as the Monday-first index of the weekday of
  the 1st of the month, then the days 1 to the length of the month in order, each cell
  showing its day number, then fewer than 7 blank cells that make the number of cells a
  multiple of 7. A month that begins on a Sunday has 6 leading blank cells.
\<close>

theorem Month_grid:
  assumes "y < 0 \<or> 99 < y" and "- 271820 \<le> y" and "y \<le> 275759"
    and "0 \<le> m" and "m \<le> 11"
    and "\<forall>t b. \<bar>tza t b\<bar> \<le> msPerDay"
    and "\<forall>d \<in> {1..monthLength y m}.
      Day (LocalTime tza (UTC tza (dayOf y m d))) = Day (dayOf y m d)"
  shows
    "let lead = nat (mondayFirst (WeekDay (dayOf y m 1)));
         days = monthLength y m;
         trail = (7 - (lead + nat days) mod 7) mod 7
     in Month_cells tza y m =
          replicate lead None @ map (\<lambda>d. Some (Valid (UTC tza (dayOf y m d)))) [1..days]
          @ replicate trail None \<and>
        (\<forall>d \<in> {1..days}. getDate tza (Valid (UTC tza (dayOf y m d))) = Some d) \<and>
        length (Month_cells tza y m) mod 7 = 0 \<and> trail < 7 \<and>
        (WeekDay (dayOf y m 1) = 0 \<longrightarrow> lead = 6)"
proof -
  have layout: "Month_cells tza y m =
     replicate (nat (mondayFirst (WeekDay (dayOf y m 1)))) None
     @ map (\<lambda>d. Some (Valid (UTC tza (dayOf y m d)))) [1..monthLength y m]
     @ replicate
         ((7 - (nat (mondayFirst (WeekDay (dayOf y m 1))) + nat (monthLength y m)) mod 7) mod 7)
         None"
    using assms by (rule Month_cells_layout)
  have dates: "getDate tza (Valid (UTC tza (dayOf y m d))) = Some d"
    if d: "d \<in> {1..monthLength y m}" for d
  proof -
    from d assms(7) have "Day (LocalTime tza (UTC tza (dayOf y m d))) = Day (dayOf y m d)"
      by blast
    then have "DateFromTime (LocalTime tza (UTC tza (dayOf y m d))) = DateFromTime (dayOf y m d)"
      by (rule DateFromTime_Day)
    also have "\<dots> = d"
      using d dayOf_roundtrip(3) [OF assms(4,5), of d y] by simp
    finally show ?thesis by (simp add: getDate_def)
  qed
  have total: "length (Month_cells tza y m) mod 7 = 0"
    by (simp add: Month_cells_def Let_def padLoop_length)
  have sunday: "nat (mondayFirst (WeekDay (dayOf y m 1))) = 6" if "WeekDay (dayOf y m 1) = 0"
    using that by (simp add: mondayFirst_def)
  show ?thesis
    unfolding Let_def using layout dates total sunday by simp
qed

theorem Month_grid_witness:
  "Month_cells zoneTokyo 2024 8 =
     replicate 6 None @ map (\<lambda>d. Some (Valid (UTC zoneTokyo (dayOf 2024 8 d)))) [1..30]
     @ replicate 6 None \<and>
   UTC zoneTokyo (dayOf 2024 8 1) = 1725116400000 \<and>
   WeekDay (dayOf 2024 8 1) = 0 \<and>
   getDate zoneTokyo (Valid (UTC zoneTokyo (dayOf 2024 8 30))) = Some 30"
proof -
  have sunday: "WeekDay (dayOf 2024 8 1) = 0" and days: "monthLength 2024 8 = 30"
    and first: "UTC zoneTokyo (dayOf 2024 8 1) = 1725116400000"
    by (simp_all add: calendar_defs UTC_def zoneTokyo_def)
  have off: "\<forall>t b. \<bar>zoneTokyo t b\<bar> \<le> msPerDay"
    by (simp add: zoneTokyo_def msPerDay_def)
  have same: "\<forall>d \<in> {1..monthLength 2024 8}.
      Day (LocalTime zoneTokyo (UTC zoneTokyo (dayOf 2024 8 d))) = Day (dayOf 2024 8 d)"
    by (simp add: LocalTime_def UTC_def zoneTokyo_def)
  show ?thesis
    using Month_grid [of 2024 8 zoneTokyo, OF _ _ _ _ _ off same]
    by (simp add: sunday days first Let_def mondayFirst_def)
qed

text \<open>
  In Asia/Tokyo the date built for 1 September 2024 holds the UTC time value of the
  evening before, and reads back as a Sunday, the 1st.
\<close>

lemma newDate_Tokyo:
  "newDate zoneTokyo 2024 8 1 = Valid 1725116400000"
  "getDay zoneTokyo (Valid 1725116400000) = Some 0"
  "getDate zoneTokyo (Valid 1725116400000) = Some 1"
proof -
  have t: "dayOf 2024 8 1 = 1725148800000" by (simp add: calendar_defs)
  show "newDate zoneTokyo 2024 8 1 = Valid 1725116400000"
    by (simp add: newDate_plain t TimeClip_def UTC_def zoneTokyo_def)
  have l: "LocalTime zoneTokyo 1725116400000 = dayOf 2024 8 1"
    by (simp add: LocalTime_def zoneTokyo_def t)
  have "WeekDay (dayOf 2024 8 1) = 0" by (simp add: calendar_defs)
  then show "getDay zoneTokyo (Valid 1725116400000) = Some 0"
    by (simp add: getDay_def l)
  have "DateFromTime (dayOf 2024 8 1) = 1"
    by (rule dayOf_roundtrip(3)) (simp_all add: monthLength_def)
  then show "getDate zoneTokyo (Valid 1725116400000) = Some 1"
    by (simp add: getDate_def l)
qed

text \<open>
  C7 as stated, for every year, fails. In UTC, for the year 50 the grid is that of
  January 1950, with 6 leading blank cells, while the 1st of January of the year 50 is a
  Saturday (index 5); for the year 300000 the dates are invalid and the grid is empty,
  while January has 31 days. In Pacific/Apia the grid of December 2011 has a cell for
  each of the days 1 to 31, and the cell of day 30 shows 31.
\<close>

theorem Month_grid_not_every_year:
  "Month_cells zoneUTC 50 0 =
     replicate 6 None @ map (\<lambda>d. Some (Valid (dayOf 1950 0 d))) [1..31] @ replicate 5 None \<and>
   mondayFirst (WeekDay (dayOf 50 0 1)) = 5 \<and>
   Month_cells zoneUTC 300000 0 = [] \<and> monthLength 300000 0 = 31 \<and>
   Month_cells zoneApia 2011 11 =
     replicate 3 None @ map (\<lambda>d. Some (newDate zoneApia 2011 11 d)) [1..31]
     @ replicate 1 None \<and>
   getDate zoneApia (newDate zoneApia 2011 11 30) = Some 31"
proof -
  have "Month_cells zoneUTC 50 0 = Month_cells zoneUTC 1950 0"
    using Month_cells_two_digit [of 50 zoneUTC 0] by simp
  also have "\<dots> = replicate 6 None @ map (\<lambda>d. Some (Valid (dayOf 1950 0 d))) [1..31]
      @ replicate 5 None"
  proof -
    have "WeekDay (dayOf 1950 0 1) = 0" and "monthLength 1950 0 = 31"
      by (simp_all add: calendar_defs)
    moreover have "\<forall>t b. \<bar>zoneUTC t b\<bar> \<le> msPerDay"
      by (simp add: zoneUTC_def msPerDay_def)
    moreover have "UTC zoneUTC t = t" and "LocalTime zoneUTC t = t" for t
      by (simp_all add: UTC_def LocalTime_def zoneUTC_def)
    ultimately show ?thesis
      using Month_cells_layout [of 1950 0 zoneUTC] by (simp add: mondayFirst_def)
  qed
  finally have january: "Month_cells zoneUTC 50 0 =
      replicate 6 None @ map (\<lambda>d. Some (Valid (dayOf 1950 0 d))) [1..31] @ replicate 5 None" .
  have saturday: "mondayFirst (WeekDay (dayOf 50 0 1)) = 5"
    by (simp add: calendar_defs)
  have far: "dayOf 300000 0 1 = 9404918380800000" "dayOf 300000 1 0 = 9404920972800000"
    by (simp_all add: calendar_defs)
  have "newDate zoneUTC 300000 0 1 = Invalid" and "newDate zoneUTC 300000 1 0 = Invalid"
    by (simp_all add: newDate_plain far TimeClip_def UTC_def zoneUTC_def)
  then have empty: "Month_cells zoneUTC 300000 0 = []"
    by (simp add: Month_cells_closed getDate_def getDay_def leadLoop.simps(1)
        padLoop.simps [of "[]"])
  have long: "monthLength 300000 0 = 31" by (simp add: monthLength_def)
  have t: "dayOf 2011 11 1 = 1322697600000" "dayOf 2011 11 30 = 1325203200000"
    "dayOf 2011 11 31 = 1325289600000" "dayOf 2011 12 0 = 1325289600000"
    by (simp_all add: calendar_defs)
  have d1: "newDate zoneApia 2011 11 1 = Valid 1322733600000"
    and d30: "newDate zoneApia 2011 11 30 = Valid 1325239200000"
    and d31: "newDate zoneApia 2011 12 0 = Valid 1325239200000"
    by (simp_all add: newDate_plain t TimeClip_def UTC_def zoneApia_def)
  have l1: "LocalTime zoneApia 1322733600000 = dayOf 2011 11 1"
    and l31: "LocalTime zoneApia 1325239200000 = dayOf 2011 11 31"
    by (simp_all add: LocalTime_def zoneApia_def t)
  have thirtyone: "DateFromTime (dayOf 2011 11 31) = 31"
    by (rule dayOf_roundtrip(3)) (simp_all add: monthLength_def)
  have thursday: "WeekDay (dayOf 2011 11 1) = 4"
    by (simp add: calendar_defs)
  have shown: "getDate zoneApia (newDate zoneApia 2011 11 30) = Some 31"
    by (simp add: d30 getDate_def l31 thirtyone)
  have "getDate zoneApia (newDate zoneApia 2011 12 0) = Some 31"
    by (simp add: d31 getDate_def l31 thirtyone)
  moreover have "getDay zoneApia (newDate zoneApia 2011 11 1) = Some 4"
    by (simp add: d1 getDay_def l1 thursday)
  ultimately have december: "Month_cells zoneApia 2011 11 =
     replicate 3 None @ map (\<lambda>d. Some (newDate zoneApia 2011 11 d)) [1..31]
     @ replicate 1 None"
    by (simp add: Month_cells_closed leadLoop_closed padLoop_closed)
  from january saturday empty long december shown show ?thesis by (simp only: simp_thms)
qed

end
